theory Spec2Isabelle
  imports Main
begin

section \<open>The deposit payment-confirmation poller of \<open>deposit.js\<close>\<close>

text \<open>
  The model follows \<open>src/staticfiles/core/js/deposit.js\<close>. JavaScript runs the page on
  one thread: a callback runs to its next \<open>await\<close> without interruption, and other
  callbacks may run while it is suspended there. The page is therefore a state record,
  every uninterrupted piece of code is a function on it, and an interleaving is a list of
  events.

  What the browser provides is modelled as follows.
  \<^item> \<open>setInterval\<close> returns a fresh handle and arms a timer; \<open>clearInterval\<close> of
    \<open>undefined\<close> or of a handle that is not armed does nothing. The armed timers
    are the list \<open>timers\<close>, each with the \<open>this\<close> and the \<open>paymentId\<close> its
    callback closes over.
  \<^item> \<open>fetch\<close> followed by \<open>response.json()\<close> either yields the parsed payload
    (\<open>Resolved\<close>) or throws (\<open>Rejected\<close>, a network or parse error). The callback
    touches no state between the two awaits, so they are one suspension point.
  \<^item> The elements looked up by the constructor exist in the page, and they are the same
    for every \<open>DepositManager\<close>: they are fields of the page. \<open>retryCount\<close> is a
    field of the instance.
  \<^item> \<open>createDeposit\<close> is split at its await like the timer callback. After a
    successful creation the page disables the inputs and buttons of the form, which
    \<open>form_disabled\<close> records; \<open>createDeposit\<close> itself reads neither the form nor the
    timer, and the examples below submit only while the form is enabled.
  \<^item> Toasts, console output, requests and the redirect are appended to the log
    \<open>effects\<close>.
  \<^item> Time is the order of events only: \<open>POLL_INTERVAL\<close> is the period of the timer and
    no function depends on it. \<open>retryCount\<close> is a natural number; the JavaScript number
    is exact far beyond any count a page can reach.
\<close>

subsection \<open>Constants and data\<close>

definition POLL_INTERVAL :: nat where
  "POLL_INTERVAL = 30000"

definition MAX_RETRIES :: nat where
  "MAX_RETRIES = 20"

type_synonym timer_id = nat
type_synonym instance_id = nat

datatype effect =
    Fetch string
  | ShowToast string string
  | ConsoleError string
  | RedirectAfter string nat
  | OverlayShow
  | OverlayHide

text \<open>The payload of \<open>/deposit/status/<id>/\<close>: \<open>data.success\<close> and \<open>data.status\<close>.\<close>

record status_data =
  success :: bool
  status :: string

text \<open>The payload of \<open>/deposit/create/\<close>. An absent \<open>message\<close> is the empty string:
  both are falsy in \<open>data.message || ...\<close>.\<close>

record deposit_data =
  dsuccess :: bool
  message :: string
  payment_id :: string
  payment_address :: string
  qr_code_url :: string

text \<open>What an awaited request gives: the thrown error's message, or the payload.\<close>

datatype 'a outcome = Rejected string | Resolved 'a

text \<open>
  \<open>paymentCheckInterval\<close> is the module-level variable (\<open>None\<close> is \<open>undefined\<close>).
  \<open>inflight\<close> holds the timer callbacks suspended at their await, oldest first: the
  instance is the callback's \<open>this\<close>; the timer that fired it is recorded for the
  statements below only, no function reads it. \<open>creating\<close> holds the calls of
  \<open>createDeposit\<close> suspended at their await, oldest first, each with its \<open>this\<close>.
\<close>

record page =
  paymentCheckInterval :: "timer_id option"
  timers :: "(timer_id \<times> instance_id \<times> string) list"
  next_timer :: timer_id
  retryCount :: "instance_id \<Rightarrow> nat"
  inflight :: "(timer_id \<times> instance_id) list"
  addressDisplay :: string
  qrCodeDisplay :: string
  form_payment_pending :: bool
  form_disabled :: bool
  creating :: "instance_id list"
  effects :: "effect list"

definition init :: page where
  "init = \<lparr> paymentCheckInterval = None, timers = [], next_timer = 1,
            retryCount = (\<lambda>_. 0), inflight = [], addressDisplay = [],
            qrCodeDisplay = [], form_payment_pending = False, form_disabled = False,
            creating = [], effects = [] \<rparr>"

subsection \<open>Browser primitives and helpers\<close>

definition clearInterval :: "timer_id option \<Rightarrow> page \<Rightarrow> page" where
  "clearInterval h st =
     (case h of
        None \<Rightarrow> st
      | Some t \<Rightarrow> st\<lparr>timers := filter (\<lambda>e. fst e \<noteq> t) (timers st)\<rparr>)"

definition setInterval :: "instance_id \<Rightarrow> string \<Rightarrow> page \<Rightarrow> timer_id \<times> page" where
  "setInterval i pid st =
     (next_timer st,
      st\<lparr>timers := timers st @ [(next_timer st, i, pid)],
         next_timer := Suc (next_timer st)\<rparr>)"

definition log :: "effect \<Rightarrow> page \<Rightarrow> page" where
  "log e st = st\<lparr>effects := effects st @ [e]\<rparr>"

definition showToast :: "string \<Rightarrow> string \<Rightarrow> page \<Rightarrow> page" where
  "showToast msg type st = log (ShowToast msg type) st"

definition status_url :: "string \<Rightarrow> string" where
  "status_url pid = ''/deposit/status/'' @ pid @ ''/''"

definition success_toast :: effect where
  "success_toast = ShowToast ''Payment received successfully!'' ''success''"

definition timeout_toast :: effect where
  "timeout_toast = ShowToast ''Payment check timed out. Please contact support.'' ''warning''"

subsection \<open>\<open>DepositManager\<close>\<close>

definition handlePaymentSuccess :: "page \<Rightarrow> page" where
  "handlePaymentSuccess st =
     log (RedirectAfter ''/dashboard/'' 2000)
       (showToast ''Payment received successfully!'' ''success'' st)"

definition startPaymentCheck :: "instance_id \<Rightarrow> string \<Rightarrow> page \<Rightarrow> page" where
  "startPaymentCheck i pid st =
     (let st1 = clearInterval (paymentCheckInterval st) st;
          st2 = st1\<lparr>retryCount := (retryCount st1)(i := 0)\<rparr>;
          (t, st3) = setInterval i pid st2
      in st3\<lparr>paymentCheckInterval := Some t\<rparr>)"

text \<open>
  The timer callback up to its await: the timer \<open>t\<close> fires, the request is sent and the
  callback is suspended. A timer that is not armed does not fire.
\<close>

definition timer_fire :: "timer_id \<Rightarrow> page \<Rightarrow> page" where
  "timer_fire t st =
     (case find (\<lambda>e. fst e = t) (timers st) of
        None \<Rightarrow> st
      | Some (_, i, pid) \<Rightarrow>
          (log (Fetch (status_url pid)) st)\<lparr>inflight := inflight st @ [(t, i)]\<rparr>)"

text \<open>
  The timer callback from its await on, for the instance \<open>i\<close> it closes over. A thrown
  error skips the rest of the \<open>try\<close> block, the increment of \<open>retryCount\<close> included.
\<close>

definition check_resume :: "instance_id \<Rightarrow> status_data outcome \<Rightarrow> page \<Rightarrow> page" where
  "check_resume i r st =
     (case r of
        Rejected err \<Rightarrow> log (ConsoleError ''Failed to check payment status:'') st
      | Resolved d \<Rightarrow>
          (let st1 = (if success d \<and> status d = ''completed''
                      then (let s = handlePaymentSuccess st
                            in clearInterval (paymentCheckInterval s) s)
                      else st);
               st2 = st1\<lparr>retryCount := (retryCount st1)(i := Suc (retryCount st1 i))\<rparr>
           in if MAX_RETRIES \<le> retryCount st2 i
              then showToast ''Payment check timed out. Please contact support.'' ''warning''
                     (clearInterval (paymentCheckInterval st2) st2)
              else st2))"

text \<open>The \<open>k\<close>-th suspended callback receives its outcome and runs to its end.\<close>

definition resume :: "nat \<Rightarrow> status_data outcome \<Rightarrow> page \<Rightarrow> page" where
  "resume k r st =
     (if k < length (inflight st)
      then check_resume (snd (inflight st ! k)) r
             (st\<lparr>inflight := take k (inflight st) @ drop (Suc k) (inflight st)\<rparr>)
      else st)"

definition handleSuccessfulDeposit :: "instance_id \<Rightarrow> deposit_data \<Rightarrow> page \<Rightarrow> page" where
  "handleSuccessfulDeposit i d st =
     (let st1 = st\<lparr>addressDisplay := payment_address d, qrCodeDisplay := qr_code_url d\<rparr>;
          st2 = showToast ''Deposit created successfully'' ''success'' st1;
          st3 = startPaymentCheck i (payment_id d) st2
      in st3\<lparr>form_payment_pending := True, form_disabled := True\<rparr>)"

definition or_default :: "string \<Rightarrow> string" where
  "or_default msg = (if msg = [] then ''Failed to create deposit'' else msg)"

text \<open>The \<open>catch\<close> block of \<open>createDeposit\<close>, for an error with message \<open>msg\<close>.\<close>

definition createDeposit_catch :: "string \<Rightarrow> page \<Rightarrow> page" where
  "createDeposit_catch msg st =
     showToast (or_default msg) ''error'' (log (ConsoleError ''Failed to create deposit:'') st)"

text \<open>
  \<open>createDeposit\<close> up to its await, called on instance \<open>i\<close> by the form's submit
  listener: the overlay is shown, the request is sent and the call is suspended.
\<close>

definition createDeposit_begin :: "instance_id \<Rightarrow> page \<Rightarrow> page" where
  "createDeposit_begin i st =
     (log (Fetch ''/deposit/create/'') (log OverlayShow st))\<lparr>creating := creating st @ [i]\<rparr>"

text \<open>\<open>createDeposit\<close> from its await on, with the \<open>finally\<close> block last.\<close>

definition createDeposit_resume :: "instance_id \<Rightarrow> deposit_data outcome \<Rightarrow> page \<Rightarrow> page" where
  "createDeposit_resume i r st =
     log OverlayHide
       (case r of
          Rejected msg \<Rightarrow> createDeposit_catch msg st
        | Resolved d \<Rightarrow>
            if dsuccess d then handleSuccessfulDeposit i d st
            else createDeposit_catch (or_default (message d)) st)"

text \<open>The \<open>k\<close>-th suspended \<open>createDeposit\<close> receives its outcome and runs to its end.\<close>

definition submit_resume :: "nat \<Rightarrow> deposit_data outcome \<Rightarrow> page \<Rightarrow> page" where
  "submit_resume k r st =
     (if k < length (creating st)
      then createDeposit_resume (creating st ! k) r
             (st\<lparr>creating := take k (creating st) @ drop (Suc k) (creating st)\<rparr>)
      else st)"

subsection \<open>Interleavings\<close>

datatype event =
    Start instance_id string
  | Fire timer_id
  | Resume nat "status_data outcome"
  | Submit instance_id
  | SubmitResume nat "deposit_data outcome"

fun step :: "page \<Rightarrow> event \<Rightarrow> page" where
  "step st (Start i pid) = startPaymentCheck i pid st"
| "step st (Fire t) = timer_fire t st"
| "step st (Resume k r) = resume k r st"
| "step st (Submit i) = createDeposit_begin i st"
| "step st (SubmitResume k r) = submit_resume k r st"

definition run :: "event list \<Rightarrow> page \<Rightarrow> page" where
  "run es st = foldl step st es"

text \<open>
  A poll tick in the sense of the specification: the timer fires and the outcome of its
  query is processed before anything else happens.
\<close>

definition poll_tick :: "timer_id \<Rightarrow> status_data outcome \<Rightarrow> page \<Rightarrow> page" where
  "poll_tick t r st = resume (length (inflight st)) r (timer_fire t st)"

definition ticks :: "timer_id \<Rightarrow> status_data outcome list \<Rightarrow> page \<Rightarrow> page" where
  "ticks t rs st = foldl (\<lambda>s r. poll_tick t r s) st rs"

text \<open>A session: \<open>startPaymentCheck\<close>, then one tick of its timer for each outcome.\<close>

definition poll_session :: "instance_id \<Rightarrow> string \<Rightarrow> status_data outcome list \<Rightarrow> page \<Rightarrow> page" where
  "poll_session i pid rs st = ticks (next_timer st) rs (startPaymentCheck i pid st)"

text \<open>
  The events of such ticks: the timer \<open>t\<close> fires and the query it has just put in flight,
  at position \<open>k\<close>, is answered.
\<close>

definition session_events :: "timer_id \<Rightarrow> nat \<Rightarrow> status_data outcome list \<Rightarrow> event list" where
  "session_events t k rs = concat (map (\<lambda>r. [Fire t, Resume k r]) rs)"

definition pending :: "status_data outcome" where
  "pending = Resolved \<lparr>success = True, status = ''pending''\<rparr>"

definition completed :: "status_data outcome" where
  "completed = Resolved \<lparr>success = True, status = ''completed''\<rparr>"

fun is_completed :: "status_data outcome \<Rightarrow> bool" where
  "is_completed (Rejected _) = False"
| "is_completed (Resolved d) = (success d \<and> status d = ''completed'')"

fun is_resolved :: "'a outcome \<Rightarrow> bool" where
  "is_resolved (Rejected _) = False"
| "is_resolved (Resolved _) = True"

text \<open>The timer that \<open>paymentCheckInterval\<close> holds is armed.\<close>

definition armed :: "page \<Rightarrow> bool" where
  "armed st =
     (case paymentCheckInterval st of
        None \<Rightarrow> False
      | Some t \<Rightarrow> t \<in> fst ` set (timers st))"

text \<open>Every armed timer is the one \<open>paymentCheckInterval\<close> holds, and there is at most one.\<close>

definition one_timer :: "page \<Rightarrow> bool" where
  "one_timer st =
     (case timers st of
        [] \<Rightarrow> True
      | [e] \<Rightarrow> paymentCheckInterval st = Some (fst e)
      | _ \<Rightarrow> False)"

text \<open>\<open>setInterval\<close> has not yet handed out the handle that \<open>paymentCheckInterval\<close> holds.\<close>

definition fresh_handle :: "page \<Rightarrow> bool" where
  "fresh_handle st =
     (case paymentCheckInterval st of
        None \<Rightarrow> True
      | Some h \<Rightarrow> h < next_timer st)"

text \<open>
  What \<open>createDeposit\<close> logs when its request has failed, in order: \<open>console.error\<close>,
  the error toast with \<open>error.message || 'Failed to create deposit'\<close>, and
  \<open>loadingOverlay.hide()\<close> from the \<open>finally\<close> block.
\<close>

definition create_failed_log :: "string \<Rightarrow> effect list" where
  "create_failed_log msg =
     [ConsoleError ''Failed to create deposit:'', ShowToast (or_default msg) ''error'',
      OverlayHide]"

text \<open>Two payloads of \<open>/deposit/create/\<close> for the examples below.\<close>

definition ok_deposit :: deposit_data where
  "ok_deposit = \<lparr>dsuccess = True, message = [], payment_id = ''p'',
                  payment_address = ''addr'', qr_code_url = ''qr''\<rparr>"

definition bad_deposit :: deposit_data where
  "bad_deposit = \<lparr>dsuccess = False, message = ''Amount too small'', payment_id = [],
                   payment_address = [], qr_code_url = []\<rparr>"

section \<open>Basic facts\<close>

subsection \<open>Field projections\<close>

lemma clearInterval_fields [simp]:
  "paymentCheckInterval (clearInterval h st) = paymentCheckInterval st"
  "next_timer (clearInterval h st) = next_timer st"
  "retryCount (clearInterval h st) = retryCount st"
  "inflight (clearInterval h st) = inflight st"
  "effects (clearInterval h st) = effects st"
  by (simp_all add: clearInterval_def split: option.splits)

lemma log_fields [simp]:
  "paymentCheckInterval (log e st) = paymentCheckInterval st"
  "timers (log e st) = timers st"
  "next_timer (log e st) = next_timer st"
  "retryCount (log e st) = retryCount st"
  "inflight (log e st) = inflight st"
  "effects (log e st) = effects st @ [e]"
  by (simp_all add: log_def)

lemma one_timer_cases:
  "one_timer st \<longleftrightarrow> timers st = [] \<or> (\<exists>e. timers st = [e] \<and> paymentCheckInterval st = Some (fst e))"
  by (auto simp: one_timer_def split: list.splits)

lemma timers_clear_own:
  "one_timer st \<Longrightarrow> timers (clearInterval (paymentCheckInterval st) st) = []"
  by (auto simp: one_timer_cases clearInterval_def split: option.splits)

lemma startPaymentCheck_timers:
  "one_timer st \<Longrightarrow> timers (startPaymentCheck i pid st) = [(next_timer st, i, pid)]"
  using timers_clear_own [of st]
  by (simp add: startPaymentCheck_def setInterval_def Let_def)

lemma startPaymentCheck_fields [simp]:
  "paymentCheckInterval (startPaymentCheck i pid st) = Some (next_timer st)"
  "next_timer (startPaymentCheck i pid st) = Suc (next_timer st)"
  "retryCount (startPaymentCheck i pid st) = (retryCount st)(i := 0)"
  "inflight (startPaymentCheck i pid st) = inflight st"
  "effects (startPaymentCheck i pid st) = effects st"
  by (simp_all add: startPaymentCheck_def setInterval_def Let_def)

lemma one_timer_start: "one_timer st \<Longrightarrow> one_timer (startPaymentCheck i pid st)"
  by (simp add: one_timer_def startPaymentCheck_timers)

lemma one_timer_clear:
  assumes "one_timer st"
  shows "one_timer (clearInterval h st)"
proof (cases h)
  case None
  with assms show ?thesis by (simp add: clearInterval_def)
next
  case (Some t)
  from assms consider "timers st = []"
    | e where "timers st = [e]" "paymentCheckInterval st = Some (fst e)"
    by (auto simp: one_timer_cases)
  then show ?thesis
    by cases (auto simp: one_timer_cases clearInterval_def Some)
qed

lemma one_timer_log: "one_timer (log e st) = one_timer st"
  by (simp add: one_timer_cases)

lemma one_timer_retry: "one_timer (st\<lparr>retryCount := f\<rparr>) = one_timer st"
  by (simp add: one_timer_cases)

lemma one_timer_inflight: "one_timer (st\<lparr>inflight := f\<rparr>) = one_timer st"
  by (simp add: one_timer_cases)

lemma one_timer_fire: "one_timer st \<Longrightarrow> one_timer (timer_fire t st)"
  by (simp add: timer_fire_def one_timer_inflight one_timer_log split: option.splits prod.splits)

lemma one_timer_check: "one_timer st \<Longrightarrow> one_timer (check_resume i r st)"
  by (simp add: check_resume_def Let_def showToast_def handlePaymentSuccess_def
      one_timer_log one_timer_retry one_timer_clear split: outcome.splits)

lemma one_timer_resume: "one_timer st \<Longrightarrow> one_timer (resume k r st)"
  by (simp add: resume_def one_timer_check one_timer_inflight)

lemma one_timer_same:
  "one_timer (st\<lparr>addressDisplay := a, qrCodeDisplay := q\<rparr>) = one_timer st"
  "one_timer (st\<lparr>form_payment_pending := b, form_disabled := c\<rparr>) = one_timer st"
  by (simp_all add: one_timer_cases)

lemma one_timer_handleSuccessfulDeposit:
  assumes "one_timer st"
  shows "one_timer (handleSuccessfulDeposit i d st)"
proof -
  let ?st2 = "showToast ''Deposit created successfully'' ''success''
                (st\<lparr>addressDisplay := payment_address d, qrCodeDisplay := qr_code_url d\<rparr>)"
  have "one_timer ?st2"
    using assms by (simp add: showToast_def one_timer_log one_timer_same)
  then have "one_timer (startPaymentCheck i (payment_id d) ?st2)"
    by (rule one_timer_start)
  then show ?thesis
    by (simp add: handleSuccessfulDeposit_def Let_def one_timer_same)
qed

lemma one_timer_creating: "one_timer (st\<lparr>creating := f\<rparr>) = one_timer st"
  by (simp add: one_timer_cases)

lemma one_timer_createDeposit_begin: "one_timer (createDeposit_begin i st) = one_timer st"
  by (simp add: createDeposit_begin_def one_timer_creating one_timer_log)

lemma one_timer_createDeposit_resume:
  "one_timer st \<Longrightarrow> one_timer (createDeposit_resume i r st)"
  by (simp add: createDeposit_resume_def createDeposit_catch_def showToast_def one_timer_log
      one_timer_handleSuccessfulDeposit split: outcome.splits)

lemma one_timer_submit_resume: "one_timer st \<Longrightarrow> one_timer (submit_resume k r st)"
  by (simp add: submit_resume_def one_timer_createDeposit_resume one_timer_creating)

lemma one_timer_step: "one_timer st \<Longrightarrow> one_timer (step st e)"
  by (cases e)
     (simp_all add: one_timer_start one_timer_fire one_timer_resume
        one_timer_createDeposit_begin one_timer_submit_resume)

lemma one_timer_init: "one_timer init"
  by (simp add: one_timer_def init_def)

lemma one_timer_run: "one_timer st \<Longrightarrow> one_timer (run es st)"
  unfolding run_def by (induction es arbitrary: st) (simp_all add: one_timer_step)

lemma one_timer_reachable: "one_timer (run es init)"
  by (simp add: one_timer_run one_timer_init)

lemma ticks_append: "ticks t (xs @ ys) st = ticks t ys (ticks t xs st)"
  by (simp add: ticks_def)

lemma ticks_Cons: "ticks t (r # rs) st = ticks t rs (poll_tick t r st)"
  by (simp add: ticks_def)

lemma ticks_Nil: "ticks t [] st = st"
  by (simp add: ticks_def)

lemma poll_tick_armed:
  assumes "timers st = [(t, i, pid)]"
  shows "poll_tick t r st = check_resume i r (log (Fetch (status_url pid)) st)"
  using assms by (simp add: poll_tick_def timer_fire_def resume_def log_def)

lemma poll_tick_disarmed:
  assumes "timers st = []"
  shows "poll_tick t r st = st"
  using assms by (simp add: poll_tick_def timer_fire_def resume_def)

lemma ticks_disarmed: "timers st = [] \<Longrightarrow> ticks t rs st = st"
  by (induction rs) (simp_all add: ticks_def poll_tick_disarmed)

lemma count_toast_log:
  "count_list (effects (log e st)) x = count_list (effects st) x + (if e = x then 1 else 0)"
  by (simp add: log_def)

lemma check_resume_Rejected:
  "check_resume i (Rejected err) st = log (ConsoleError ''Failed to check payment status:'') st"
  by (simp add: check_resume_def)

lemma check_resume_Resolved:
  "check_resume i (Resolved d) st =
     (let st1 = (if is_completed (Resolved d)
                 then clearInterval (paymentCheckInterval st) (handlePaymentSuccess st)
                 else st);
          st2 = st1\<lparr>retryCount := (retryCount st1)(i := Suc (retryCount st1 i))\<rparr>
      in if MAX_RETRIES \<le> retryCount st2 i
         then log timeout_toast (clearInterval (paymentCheckInterval st2) st2)
         else st2)"
  by (simp add: check_resume_def Let_def handlePaymentSuccess_def showToast_def timeout_toast_def)

lemma handlePaymentSuccess_fields [simp]:
  "paymentCheckInterval (handlePaymentSuccess st) = paymentCheckInterval st"
  "timers (handlePaymentSuccess st) = timers st"
  "retryCount (handlePaymentSuccess st) = retryCount st"
  "inflight (handlePaymentSuccess st) = inflight st"
  "effects (handlePaymentSuccess st) = effects st @ [success_toast, RedirectAfter ''/dashboard/'' 2000]"
  by (simp_all add: handlePaymentSuccess_def showToast_def success_toast_def)

lemma timers_clearInterval [simp]:
  "timers (clearInterval (Some t) st) = filter (\<lambda>e. fst e \<noteq> t) (timers st)"
  "timers (clearInterval None st) = timers st"
  by (simp_all add: clearInterval_def)

lemma toast_distinct [simp]:
  "success_toast \<noteq> timeout_toast" "timeout_toast \<noteq> success_toast"
  "timeout_toast \<noteq> RedirectAfter u n" "success_toast \<noteq> RedirectAfter u n"
  "success_toast \<noteq> Fetch u" "timeout_toast \<noteq> Fetch u"
  "success_toast \<noteq> ConsoleError u" "timeout_toast \<noteq> ConsoleError u"
  "RedirectAfter u n \<noteq> timeout_toast" "RedirectAfter u n \<noteq> success_toast"
  "Fetch u \<noteq> success_toast" "Fetch u \<noteq> timeout_toast"
  "ConsoleError u \<noteq> success_toast" "ConsoleError u \<noteq> timeout_toast"
  by (simp_all add: success_toast_def timeout_toast_def)

lemma tick_quiet:
  assumes "timers st = [(t, i, pid)]" and "paymentCheckInterval st = Some t"
    and "\<not> is_completed r" and "is_resolved r \<longrightarrow> Suc (retryCount st i) < MAX_RETRIES"
  shows "timers (poll_tick t r st) = [(t, i, pid)]"
    and "paymentCheckInterval (poll_tick t r st) = Some t"
    and "retryCount (poll_tick t r st) i = retryCount st i + (if is_resolved r then 1 else 0)"
    and "count_list (effects (poll_tick t r st)) (ShowToast m ty) = count_list (effects st) (ShowToast m ty)"
    and "inflight (poll_tick t r st) = inflight st"
  using assms
  by (cases r; simp add: poll_tick_armed check_resume_Rejected check_resume_Resolved Let_def
      del: is_completed.simps)+

lemma ticks_quiet:
  assumes "timers st = [(t, i, pid)]" and "paymentCheckInterval st = Some t"
    and "\<forall>r \<in> set rs. \<not> is_completed r"
    and "retryCount st i + length (filter is_resolved rs) < MAX_RETRIES"
  shows "timers (ticks t rs st) = [(t, i, pid)]
       \<and> paymentCheckInterval (ticks t rs st) = Some t
       \<and> retryCount (ticks t rs st) i = retryCount st i + length (filter is_resolved rs)
       \<and> count_list (effects (ticks t rs st)) (ShowToast m ty) = count_list (effects st) (ShowToast m ty)
       \<and> inflight (ticks t rs st) = inflight st"
  using assms
proof (induction rs arbitrary: st)
  case Nil
  then show ?case by (simp add: ticks_Nil)
next
  case (Cons r rs)
  let ?s = "poll_tick t r st"
  have r: "\<not> is_completed r" "is_resolved r \<longrightarrow> Suc (retryCount st i) < MAX_RETRIES"
    using Cons.prems(3,4) by (cases "is_resolved r"; simp)+
  note q = tick_quiet [OF Cons.prems(1,2) r]
  have rest: "\<forall>r \<in> set rs. \<not> is_completed r"
    using Cons.prems(3) by simp
  have bound: "retryCount ?s i + length (filter is_resolved rs) < MAX_RETRIES"
    using Cons.prems(4) by (cases "is_resolved r") (simp_all add: q(3))
  note IH = Cons.IH [OF q(1) q(2) rest bound]
  have "retryCount ?s i + length (filter is_resolved rs)
          = retryCount st i + length (filter is_resolved (r # rs))"
    by (cases "is_resolved r") (simp_all add: q(3))
  with IH show ?case
    unfolding ticks_Cons by (simp only: q(4) q(5) simp_thms)
qed

lemma tick_cap:
  assumes "timers st = [(t, i, pid)]" and "paymentCheckInterval st = Some t"
    and "\<not> is_completed (Resolved d)" and "MAX_RETRIES \<le> Suc (retryCount st i)"
  shows "timers (poll_tick t (Resolved d) st) = []"
    and "paymentCheckInterval (poll_tick t (Resolved d) st) = Some t"
    and "retryCount (poll_tick t (Resolved d) st) i = Suc (retryCount st i)"
    and "count_list (effects (poll_tick t (Resolved d) st)) timeout_toast
           = Suc (count_list (effects st) timeout_toast)"
    and "count_list (effects (poll_tick t (Resolved d) st)) success_toast
           = count_list (effects st) success_toast"
    and "inflight (poll_tick t (Resolved d) st) = inflight st"
  unfolding poll_tick_armed [OF assms(1)] check_resume_Resolved Let_def
  by (simp_all add: assms del: is_completed.simps)

lemma tick_completed:
  assumes "timers st = [(t, i, pid)]" and "paymentCheckInterval st = Some t"
    and "is_completed (Resolved d)"
  shows "timers (poll_tick t (Resolved d) st) = []"
    and "paymentCheckInterval (poll_tick t (Resolved d) st) = Some t"
    and "retryCount (poll_tick t (Resolved d) st) i = Suc (retryCount st i)"
    and "count_list (effects (poll_tick t (Resolved d) st)) success_toast
           = Suc (count_list (effects st) success_toast)"
    and "count_list (effects (poll_tick t (Resolved d) st)) timeout_toast
           = count_list (effects st) timeout_toast
             + (if MAX_RETRIES \<le> Suc (retryCount st i) then 1 else 0)"
    and "inflight (poll_tick t (Resolved d) st) = inflight st"
  unfolding poll_tick_armed [OF assms(1)] check_resume_Resolved Let_def
  by (simp_all add: assms del: is_completed.simps)

lemma check_resume_fields [simp]:
  "paymentCheckInterval (check_resume i r st) = paymentCheckInterval st"
  "next_timer (check_resume i r st) = next_timer st"
  "inflight (check_resume i r st) = inflight st"
  by (cases r; simp add: check_resume_Rejected check_resume_Resolved Let_def
      handlePaymentSuccess_def showToast_def del: is_completed.simps)+

lemma timer_fire_fields [simp]:
  "paymentCheckInterval (timer_fire t st) = paymentCheckInterval st"
  "next_timer (timer_fire t st) = next_timer st"
  "timers (timer_fire t st) = timers st"
  "retryCount (timer_fire t st) = retryCount st"
  by (simp_all add: timer_fire_def split: option.splits prod.splits)

lemma resume_fields [simp]:
  "paymentCheckInterval (resume k r st) = paymentCheckInterval st"
  "next_timer (resume k r st) = next_timer st"
  by (simp_all add: resume_def)

lemma createDeposit_begin_fresh:
  "fresh_handle (createDeposit_begin i st) = fresh_handle st"
  by (simp add: fresh_handle_def createDeposit_begin_def split: option.splits)

lemma createDeposit_resume_fresh:
  "fresh_handle st \<Longrightarrow> fresh_handle (createDeposit_resume i r st)"
  by (cases r)
     (simp_all add: fresh_handle_def createDeposit_resume_def createDeposit_catch_def
        handleSuccessfulDeposit_def showToast_def Let_def split: option.splits)

lemma fresh_handle_creating: "fresh_handle (st\<lparr>creating := f\<rparr>) = fresh_handle st"
  by (simp add: fresh_handle_def split: option.splits)

lemma submit_resume_fresh:
  "fresh_handle st \<Longrightarrow> fresh_handle (submit_resume k r st)"
  by (simp add: submit_resume_def createDeposit_resume_fresh fresh_handle_creating)

lemma fresh_handle_step: "fresh_handle st \<Longrightarrow> fresh_handle (step st e)"
  by (cases e)
     (simp_all add: createDeposit_begin_fresh submit_resume_fresh,
      simp_all add: fresh_handle_def split: option.splits)

lemma fresh_handle_reachable: "fresh_handle (run es init)"
proof -
  have "fresh_handle st \<Longrightarrow> fresh_handle (foldl step st es)" for st
    by (induction es arbitrary: st) (simp_all add: fresh_handle_step)
  then show ?thesis
    by (simp add: run_def fresh_handle_def init_def)
qed

lemma inflight_poll_tick: "inflight (poll_tick t r st) = inflight st"
  by (simp add: poll_tick_def timer_fire_def resume_def split: option.splits prod.splits)

lemma inflight_ticks: "inflight (ticks t rs st) = inflight st"
  by (induction rs arbitrary: st) (simp_all add: ticks_Nil ticks_Cons inflight_poll_tick)

lemma session_start:
  assumes "one_timer st"
  shows "timers (startPaymentCheck i pid st) = [(next_timer st, i, pid)]"
    and "paymentCheckInterval (startPaymentCheck i pid st) = Some (next_timer st)"
    and "retryCount (startPaymentCheck i pid st) i = 0"
    and "effects (startPaymentCheck i pid st) = effects st"
  using assms by (simp_all add: startPaymentCheck_timers)

lemma armed_single:
  "timers st = [(t, i, pid)] \<Longrightarrow> paymentCheckInterval st = Some t \<Longrightarrow> armed st"
  by (simp add: armed_def)

lemma not_armed_empty: "timers st = [] \<Longrightarrow> \<not> armed st"
  by (simp add: armed_def split: option.splits)

lemma is_resolved_pending [simp]: "is_resolved pending" "\<not> is_completed pending"
  by (simp_all add: pending_def)

lemma is_completed_completed [simp]: "is_completed completed"
  by (simp add: completed_def)

lemma MAX_RETRIES_pos: "0 < MAX_RETRIES"
  by (simp add: MAX_RETRIES_def)

subsection \<open>Timers, the handle and what is in flight\<close>

lemma one_timer_length: "one_timer st \<Longrightarrow> length (timers st) \<le> 1"
  by (auto simp: one_timer_cases)

lemma fresh_handle_neq:
  "fresh_handle st \<Longrightarrow> paymentCheckInterval st \<noteq> Some (next_timer st)"
  by (auto simp: fresh_handle_def)

lemma armed_timer_is_old:
  assumes "one_timer st" and "fresh_handle st" and "(t, j, q) \<in> set (timers st)"
  shows "t < next_timer st"
proof -
  from assms(1,3) have "paymentCheckInterval st = Some t"
    by (auto simp: one_timer_cases)
  with assms(2) show ?thesis
    by (simp add: fresh_handle_def)
qed

lemma armed_log: "armed (log e st) = armed st"
  by (simp add: armed_def split: option.splits)

lemma armed_retryCount: "armed (st\<lparr>retryCount := f\<rparr>) = armed st"
  by (simp add: armed_def split: option.splits)

lemma armed_inflight: "armed (st\<lparr>inflight := f\<rparr>) = armed st"
  by (simp add: armed_def split: option.splits)

lemma armed_effects: "armed (st\<lparr>effects := f\<rparr>) = armed st"
  by (simp add: armed_def split: option.splits)

lemma not_armed_clear_own: "\<not> armed (clearInterval (paymentCheckInterval st) st)"
  by (cases "paymentCheckInterval st") (auto simp: armed_def)

lemma not_armed_clear: "\<not> armed st \<Longrightarrow> \<not> armed (clearInterval h st)"
  by (cases h; cases "paymentCheckInterval st") (auto simp: armed_def)

lemma check_resume_completed:
  assumes "is_completed (Resolved d)"
  shows "\<not> armed (check_resume i (Resolved d) st)"
    and "count_list (effects (check_resume i (Resolved d) st)) success_toast
           = Suc (count_list (effects st) success_toast)"
proof -
  let ?s1 = "clearInterval (paymentCheckInterval st) (handlePaymentSuccess st)"
  let ?s2 = "?s1\<lparr>retryCount := (retryCount ?s1)(i := Suc (retryCount ?s1 i))\<rparr>"
  have "\<not> armed (clearInterval (paymentCheckInterval (handlePaymentSuccess st)) (handlePaymentSuccess st))"
    by (rule not_armed_clear_own)
  then have s2: "\<not> armed ?s2"
    by (simp add: armed_retryCount)
  then have "\<not> armed (log timeout_toast (clearInterval (paymentCheckInterval ?s2) ?s2))"
    by (simp only: armed_log not_armed_clear not_False_eq_True)
  with s2 show "\<not> armed (check_resume i (Resolved d) st)"
    unfolding check_resume_Resolved Let_def using assms by (simp del: is_completed.simps)
  show "count_list (effects (check_resume i (Resolved d) st)) success_toast
           = Suc (count_list (effects st) success_toast)"
    unfolding check_resume_Resolved Let_def using assms by (simp del: is_completed.simps)
qed

lemma check_resume_counts:
  "retryCount (check_resume i (Resolved d) st) i = Suc (retryCount st i)"
  unfolding check_resume_Resolved Let_def by (simp del: is_completed.simps)

lemma check_resume_cap:
  assumes "MAX_RETRIES \<le> Suc (retryCount st i)"
  shows "\<not> armed (check_resume i (Resolved d) st)"
    and "count_list (effects (check_resume i (Resolved d) st)) timeout_toast
           = Suc (count_list (effects st) timeout_toast)"
proof -
  let ?s1 = "if is_completed (Resolved d)
             then clearInterval (paymentCheckInterval st) (handlePaymentSuccess st) else st"
  let ?s2 = "?s1\<lparr>retryCount := (retryCount ?s1)(i := Suc (retryCount ?s1 i))\<rparr>"
  have eq: "check_resume i (Resolved d) st
              = log timeout_toast (clearInterval (paymentCheckInterval ?s2) ?s2)"
    unfolding check_resume_Resolved Let_def using assms by (simp del: is_completed.simps)
  show "\<not> armed (check_resume i (Resolved d) st)"
    unfolding eq armed_log by (rule not_armed_clear_own)
  show "count_list (effects (check_resume i (Resolved d) st)) timeout_toast
           = Suc (count_list (effects st) timeout_toast)"
    unfolding eq by (simp del: is_completed.simps)
qed

lemma timer_fire_armed:
  "t \<in> fst ` set (timers st) \<Longrightarrow> length (inflight (timer_fire t st)) = Suc (length (inflight st))"
proof -
  assume "t \<in> fst ` set (timers st)"
  then obtain e where "e \<in> set (timers st)" "fst e = t"
    by auto
  then have "\<exists>x. x \<in> set (timers st) \<and> fst x = t"
    by blast
  then have "find (\<lambda>e. fst e = t) (timers st) \<noteq> None"
    by (simp only: find_None_iff not_not)
  then show ?thesis
    by (auto simp: timer_fire_def)
qed

lemma timer_fire_inflight_le:
  "length (inflight (timer_fire t st)) \<le> Suc (length (inflight st))"
  by (simp add: timer_fire_def split: option.splits prod.splits)

lemma or_default_idem: "or_default (or_default msg) = or_default msg"
  by (simp add: or_default_def)

lemma createDeposit_Rejected:
  "createDeposit_resume i (Rejected msg) st = st\<lparr>effects := effects st @ create_failed_log msg\<rparr>"
  by (simp add: createDeposit_resume_def createDeposit_catch_def showToast_def log_def
      create_failed_log_def)

lemma createDeposit_unsuccessful:
  "\<not> dsuccess d \<Longrightarrow>
   createDeposit_resume i (Resolved d) st
     = st\<lparr>effects := effects st @ create_failed_log (message d)\<rparr>"
  by (simp add: createDeposit_resume_def createDeposit_catch_def showToast_def log_def
      create_failed_log_def or_default_idem)

lemma armed_creating: "armed (st\<lparr>creating := f\<rparr>) = armed st"
  by (simp add: armed_def split: option.splits)

lemma createDeposit_success:
  assumes "dsuccess d"
  shows "addressDisplay (createDeposit_resume i (Resolved d) st) = payment_address d"
    and "qrCodeDisplay (createDeposit_resume i (Resolved d) st) = qr_code_url d"
    and "ShowToast ''Deposit created successfully'' ''success''
           \<in> set (effects (createDeposit_resume i (Resolved d) st))"
    and "(next_timer st, i, payment_id d) \<in> set (timers (createDeposit_resume i (Resolved d) st))"
    and "paymentCheckInterval (createDeposit_resume i (Resolved d) st) = Some (next_timer st)"
    and "retryCount (createDeposit_resume i (Resolved d) st) i = 0"
  using assms
  by (simp_all add: createDeposit_resume_def
      handleSuccessfulDeposit_def startPaymentCheck_def setInterval_def showToast_def log_def
      Let_def clearInterval_def split: option.splits)

subsection \<open>Sessions as runs, and overlapping ticks\<close>

lemma session_quiet:
  assumes "\<forall>r \<in> set rs. \<not> is_completed r"
    and "length (filter is_resolved rs) < MAX_RETRIES"
  shows "timers (poll_session i pid rs (run es init)) = [(next_timer (run es init), i, pid)]"
    and "paymentCheckInterval (poll_session i pid rs (run es init)) = Some (next_timer (run es init))"
    and "retryCount (poll_session i pid rs (run es init)) i = length (filter is_resolved rs)"
    and "count_list (effects (poll_session i pid rs (run es init))) timeout_toast
           = count_list (effects (run es init)) timeout_toast"
    and "count_list (effects (poll_session i pid rs (run es init))) success_toast
           = count_list (effects (run es init)) success_toast"
proof -
  note s = session_start [OF one_timer_reachable, of i pid es]
  have "retryCount (startPaymentCheck i pid (run es init)) i
          + length (filter is_resolved rs) < MAX_RETRIES"
    using assms(2) by (simp add: s(3))
  note q = ticks_quiet [OF s(1) s(2) assms(1) this]
  show "timers (poll_session i pid rs (run es init)) = [(next_timer (run es init), i, pid)]"
    and "paymentCheckInterval (poll_session i pid rs (run es init)) = Some (next_timer (run es init))"
    and "retryCount (poll_session i pid rs (run es init)) i = length (filter is_resolved rs)"
    and "count_list (effects (poll_session i pid rs (run es init))) timeout_toast
           = count_list (effects (run es init)) timeout_toast"
    and "count_list (effects (poll_session i pid rs (run es init))) success_toast
           = count_list (effects (run es init)) success_toast"
    unfolding poll_session_def timeout_toast_def success_toast_def
    using q by (simp_all add: s(3) s(4))
qed

lemma session_then_completed:
  assumes "\<forall>r \<in> set rs. \<not> is_completed r"
    and "length (filter is_resolved rs) < MAX_RETRIES"
    and "is_completed r"
  shows "timers (poll_session i pid (rs @ [r]) (run es init)) = []"
    and "count_list (effects (poll_session i pid (rs @ [r]) (run es init))) success_toast
           = Suc (count_list (effects (run es init)) success_toast)"
    and "count_list (effects (poll_session i pid (rs @ [r]) (run es init))) timeout_toast
           = count_list (effects (run es init)) timeout_toast
             + (if MAX_RETRIES \<le> Suc (length (filter is_resolved rs)) then 1 else 0)"
proof -
  from assms(3) obtain d where r: "r = Resolved d"
    by (cases r) simp_all
  have split: "poll_session i pid (rs @ [r]) (run es init)
                 = poll_tick (next_timer (run es init)) (Resolved d) (poll_session i pid rs (run es init))"
    by (simp add: poll_session_def ticks_append ticks_Cons ticks_Nil r)
  note q = session_quiet [OF assms(1,2), of i pid es]
  note c = tick_completed [OF q(1) q(2) assms(3) [unfolded r]]
  show "timers (poll_session i pid (rs @ [r]) (run es init)) = []"
    unfolding split by (rule c(1))
  show "count_list (effects (poll_session i pid (rs @ [r]) (run es init))) success_toast
           = Suc (count_list (effects (run es init)) success_toast)"
    unfolding split c(4) q(5) by (rule refl)
  show "count_list (effects (poll_session i pid (rs @ [r]) (run es init))) timeout_toast
           = count_list (effects (run es init)) timeout_toast
             + (if MAX_RETRIES \<le> Suc (length (filter is_resolved rs)) then 1 else 0)"
    unfolding split c(5) q(3) q(4) by (rule refl)
qed


lemma run_append: "run (es @ es') st = run es' (run es st)"
  by (simp add: run_def)

lemma run_Nil: "run [] st = st"
  by (simp add: run_def)

lemma run_Cons: "run (e # es) st = run es (step st e)"
  by (simp add: run_def)

lemma ticks_are_events:
  "ticks t rs st = run (session_events t (length (inflight st)) rs) st"
proof (induction rs arbitrary: st)
  case Nil
  show ?case by (simp add: ticks_Nil session_events_def run_Nil)
next
  case (Cons r rs)
  have "ticks t (r # rs) st = run (session_events t (length (inflight st)) rs) (poll_tick t r st)"
    by (simp add: ticks_Cons Cons.IH inflight_poll_tick)
  also have "\<dots> = run (session_events t (length (inflight st)) (r # rs)) st"
    by (simp add: session_events_def run_Cons poll_tick_def)
  finally show ?case .
qed

lemma poll_session_is_run:
  "poll_session i pid rs (run es init)
     = run (es @ Start i pid # session_events (next_timer (run es init))
                                (length (inflight (run es init))) rs) init"
  by (simp add: poll_session_def ticks_are_events run_append run_Cons)

lemma timer_fire_single:
  "timers st = [(t, i, pid)] \<Longrightarrow>
   timer_fire t st = (log (Fetch (status_url pid)) st)\<lparr>inflight := inflight st @ [(t, i)]\<rparr>"
  by (simp add: timer_fire_def)

lemma resume_first:
  "inflight st = (t0, i) # rest \<Longrightarrow>
   resume 0 r st = check_resume i r (st\<lparr>inflight := rest\<rparr>)"
  by (simp add: resume_def)

lemma overlap_first:
  assumes "timers st = [(t, i, pid)]" and "inflight st = []"
  shows "run [Fire t, Fire t, Resume 0 r1] st
           = check_resume i r1
               ((log (Fetch (status_url pid)) (log (Fetch (status_url pid)) st))
                  \<lparr>inflight := [(t, i)]\<rparr>)"
proof -
  let ?a = "timer_fire t st"
  have a: "?a = (log (Fetch (status_url pid)) st)\<lparr>inflight := [(t, i)]\<rparr>"
    using assms by (simp add: timer_fire_single)
  have ta: "timers ?a = [(t, i, pid)]"
    using assms(1) by simp
  have b: "timer_fire t ?a = (log (Fetch (status_url pid)) (log (Fetch (status_url pid)) st))
                  \<lparr>inflight := [(t, i), (t, i)]\<rparr>"
    unfolding timer_fire_single [OF ta] by (simp add: a log_def)
  show ?thesis
    by (simp add: run_Cons run_Nil b resume_def)
qed

lemma overlap_after_session:
  assumes "timers st = [(t, i, pid)]" and "inflight st = []"
  shows "run [Fire t, Fire t, Resume 0 r1, Resume 0 r2] st
           = check_resume i r2 ((check_resume i r1
               ((log (Fetch (status_url pid)) (log (Fetch (status_url pid)) st))
                  \<lparr>inflight := [(t, i)]\<rparr>))\<lparr>inflight := []\<rparr>)"
proof -
  let ?c = "run [Fire t, Fire t, Resume 0 r1] st"
  note c = overlap_first [OF assms, of r1]
  have "inflight ?c = [(t, i)]"
    unfolding c by simp
  then have "resume 0 r2 ?c = check_resume i r2 (?c\<lparr>inflight := []\<rparr>)"
    by (rule resume_first)
  moreover have "run [Fire t, Fire t, Resume 0 r1, Resume 0 r2] st = resume 0 r2 ?c"
    by (simp add: run_Cons run_Nil)
  ultimately show ?thesis
    by (simp only: c)
qed

lemma check_resume_toasts:
  "count_list (effects (check_resume i (Resolved d) st)) success_toast
     = count_list (effects st) success_toast + (if is_completed (Resolved d) then 1 else 0)"
  "count_list (effects (check_resume i (Resolved d) st)) timeout_toast
     = count_list (effects st) timeout_toast
       + (if MAX_RETRIES \<le> Suc (retryCount st i) then 1 else 0)"
  unfolding check_resume_Resolved Let_def by (simp_all del: is_completed.simps)

lemma overlap_counts:
  assumes "timers st = [(t, i, pid)]" and "inflight st = []"
  shows "count_list (effects (run [Fire t, Fire t, Resume 0 (Resolved d1), Resume 0 (Resolved d2)] st))
           success_toast
         = count_list (effects st) success_toast
           + (if is_completed (Resolved d1) then 1 else 0)
           + (if is_completed (Resolved d2) then 1 else 0)"
    and "count_list (effects (run [Fire t, Fire t, Resume 0 (Resolved d1), Resume 0 (Resolved d2)] st))
           timeout_toast
         = count_list (effects st) timeout_toast
           + (if MAX_RETRIES \<le> Suc (retryCount st i) then 1 else 0)
           + (if MAX_RETRIES \<le> Suc (Suc (retryCount st i)) then 1 else 0)"
  by (simp_all add: overlap_after_session [OF assms] check_resume_toasts check_resume_counts
      del: is_completed.simps)

lemma session_inflight:
  "inflight (poll_session i pid rs st) = inflight st"
  by (simp add: poll_session_def inflight_ticks)

lemma init_fields:
  "run [] init = init" "next_timer init = 1" "effects init = []" "inflight init = []"
  by (simp_all add: run_def init_def)



lemma submit_resume_pick:
  "k < length (creating st) \<Longrightarrow> creating st ! k = i \<Longrightarrow>
   submit_resume k r st
     = createDeposit_resume i r (st\<lparr>creating := take k (creating st) @ drop (Suc k) (creating st)\<rparr>)"
  by (simp add: submit_resume_def)

lemma createDeposit_begin_timers:
  "timers (createDeposit_begin j st) = timers st"
  "paymentCheckInterval (createDeposit_begin j st) = paymentCheckInterval st"
  "armed (createDeposit_begin j st) = armed st"
  by (simp_all add: createDeposit_begin_def armed_def split: option.splits)

section \<open>Sessions\<close>

text \<open>
  Claim C4 as stated fails. The timer fires whether or not the previous query has been
  answered. After 19 ticks answered \<open>pending\<close> one after the other, the timer fires twice
  before an answer arrives; both answers are \<open>pending\<close>, each finds \<open>retryCount\<close> at
  \<open>MAX_RETRIES\<close> or above after its increment, and the timeout toast is shown twice.
\<close>

theorem overlapping_pending_ticks_time_out_twice:
  "count_list (effects (run (Start 0 ''p'' # session_events 1 0 (replicate 19 pending)
       @ [Fire 1, Fire 1, Resume 0 pending, Resume 0 pending]) init)) timeout_toast = 2"
proof -
  let ?rs = "replicate 19 pending"
  let ?s = "poll_session 0 ''p'' ?rs (run [] init)"
  have none: "\<forall>r \<in> set ?rs. \<not> is_completed r"
    by simp
  have res: "length (filter is_resolved ?rs) = 19"
    by simp
  have bound: "length (filter is_resolved ?rs) < MAX_RETRIES"
    unfolding res by (simp add: MAX_RETRIES_def)
  note q = session_quiet [OF none bound, of 0 "''p''" "[]", unfolded res init_fields]
  have fl: "inflight (poll_session 0 ''p'' ?rs init) = []"
    by (simp add: session_inflight init_fields)
  have eq: "run (Start 0 ''p'' # session_events 1 0 ?rs
          @ [Fire 1, Fire 1, Resume 0 pending, Resume 0 pending]) init
        = run [Fire 1, Fire 1, Resume 0 pending, Resume 0 pending] (poll_session 0 ''p'' ?rs init)"
    using poll_session_is_run [of 0 "''p''" ?rs "[]"]
    by (simp only: init_fields append_Nil list.size run_append [symmetric] append_Cons)
  have c: "count_list (effects (run [Fire 1, Fire 1, Resume 0 pending, Resume 0 pending]
              (poll_session 0 ''p'' ?rs init))) timeout_toast
           = count_list (effects (poll_session 0 ''p'' ?rs init)) timeout_toast
             + (if MAX_RETRIES \<le> Suc (retryCount (poll_session 0 ''p'' ?rs init) 0) then 1 else 0)
             + (if MAX_RETRIES \<le> Suc (Suc (retryCount (poll_session 0 ''p'' ?rs init) 0)) then 1 else 0)"
    unfolding pending_def by (rule overlap_counts(2) [OF q(1) fl, unfolded pending_def])
  show ?thesis
    unfolding eq c q(3) q(4) by (simp add: MAX_RETRIES_def)
qed

text \<open>
  Claim C4, amended. When the outcome of each query is processed before the timer fires again
  and nothing else is processed meanwhile, a session whose status query answers \<open>pending\<close>
  on every tick times out exactly at tick \<open>MAX_RETRIES\<close>. Such a session is the run of
  \<open>startPaymentCheck\<close> followed by \<open>n\<close> pairs of the timer firing and its query being
  answered, from any reachable page. After it the timeout toast has been shown once more
  than before if \<open>n \<ge> MAX_RETRIES\<close> and not at all if \<open>n < MAX_RETRIES\<close>, the timer is armed
  exactly as long as \<open>n < MAX_RETRIES\<close>, and the success toast is never shown.
\<close>

theorem pending_session_times_out_at_MAX_RETRIES:
  "poll_session i pid (replicate n pending) (run es init)
     = run (es @ Start i pid # session_events (next_timer (run es init))
                                (length (inflight (run es init))) (replicate n pending)) init
   \<and> count_list (effects (poll_session i pid (replicate n pending) (run es init))) timeout_toast
     = count_list (effects (run es init)) timeout_toast + (if n < MAX_RETRIES then 0 else 1)
   \<and> count_list (effects (poll_session i pid (replicate n pending) (run es init))) success_toast
     = count_list (effects (run es init)) success_toast
   \<and> armed (poll_session i pid (replicate n pending) (run es init)) = (n < MAX_RETRIES)"
proof -
  have rest: "count_list (effects (poll_session i pid (replicate n pending) (run es init))) timeout_toast
       = count_list (effects (run es init)) timeout_toast + (if n < MAX_RETRIES then 0 else 1)
     \<and> count_list (effects (poll_session i pid (replicate n pending) (run es init))) success_toast
       = count_list (effects (run es init)) success_toast
     \<and> armed (poll_session i pid (replicate n pending) (run es init)) = (n < MAX_RETRIES)"
  proof -
    let ?st0 = "run es init"
    let ?t = "next_timer ?st0"
    let ?s = "startPaymentCheck i pid ?st0"
    note s = session_start [OF one_timer_reachable, of i pid es]
    show ?thesis
    proof (cases "n < MAX_RETRIES")
      case True
      have "retryCount ?s i + length (filter is_resolved (replicate n pending)) < MAX_RETRIES"
        using True by (simp add: s(3))
      from ticks_quiet [OF s(1) s(2) _ this]
      have q: "timers (ticks ?t (replicate n pending) ?s) = [(?t, i, pid)]"
        "paymentCheckInterval (ticks ?t (replicate n pending) ?s) = Some ?t"
        "\<And>m ty. count_list (effects (ticks ?t (replicate n pending) ?s)) (ShowToast m ty)
           = count_list (effects ?s) (ShowToast m ty)"
        by simp_all
      have qt: "count_list (effects (ticks ?t (replicate n pending) ?s)) timeout_toast
                  = count_list (effects ?s) timeout_toast"
        unfolding timeout_toast_def by (rule q(3))
      have qs: "count_list (effects (ticks ?t (replicate n pending) ?s)) success_toast
                  = count_list (effects ?s) success_toast"
        unfolding success_toast_def by (rule q(3))
      show ?thesis
        using True armed_single [OF q(1) q(2)]
        by (simp add: poll_session_def qt qs s(4))
    next
      case False
      define k where "k = n - MAX_RETRIES"
      define m where "m = MAX_RETRIES - 1"
      have "n = m + Suc k"
        using False MAX_RETRIES_pos by (simp add: k_def m_def)
      then have n: "replicate n pending = replicate m pending @ [pending] @ replicate k pending"
        by (simp only: replicate_add replicate_Suc append_Cons append_Nil)
      let ?a = "ticks ?t (replicate m pending) ?s"
      have "retryCount ?s i + length (filter is_resolved (replicate m pending)) < MAX_RETRIES"
        using MAX_RETRIES_pos by (simp add: s(3) m_def)
      from ticks_quiet [OF s(1) s(2) _ this]
      have q: "timers ?a = [(?t, i, pid)]" "paymentCheckInterval ?a = Some ?t"
        "retryCount ?a i = m"
        "\<And>m ty. count_list (effects ?a) (ShowToast m ty) = count_list (effects ?s) (ShowToast m ty)"
        by (simp_all add: s(3))
      have cap: "MAX_RETRIES \<le> Suc (retryCount ?a i)"
        unfolding q(3) by (simp add: m_def)
      have np: "\<not> is_completed (Resolved \<lparr>success = True, status = ''pending''\<rparr>)"
        by simp
      note c = tick_cap [OF q(1) q(2) np cap, folded pending_def]
      have fin: "poll_session i pid (replicate n pending) ?st0 = poll_tick ?t pending ?a"
        by (simp add: poll_session_def n ticks_append ticks_Cons ticks_disarmed [OF c(1)])
      have qt: "count_list (effects ?a) timeout_toast = count_list (effects ?s) timeout_toast"
        unfolding timeout_toast_def by (rule q(4))
      have qs: "count_list (effects ?a) success_toast = count_list (effects ?s) success_toast"
        unfolding success_toast_def by (rule q(4))
      show ?thesis
        using False not_armed_empty [OF c(1)]
        by (simp add: fin c(4) c(5) qt qs s(4))
    qed
  qed
  from poll_session_is_run [of i pid "replicate n pending" es] rest show ?thesis
    by (rule conjI)
qed




text \<open>
  Claim C9. A session whose query fails on every tick before a \<open>completed\<close> answer still
  succeeds: the success toast is shown once, no timeout toast is shown and the timer is cleared.
  This holds for any number of failed ticks, \<open>MAX_RETRIES - 1\<close> among them, since a failed
  tick does not count.
\<close>

theorem failures_then_completed_succeeds:
  "count_list (effects (poll_session i pid (map Rejected errs @ [completed]) (run es init))) success_toast
     = Suc (count_list (effects (run es init)) success_toast)
   \<and> count_list (effects (poll_session i pid (map Rejected errs @ [completed]) (run es init))) timeout_toast
     = count_list (effects (run es init)) timeout_toast
   \<and> \<not> armed (poll_session i pid (map Rejected errs @ [completed]) (run es init))"
proof -
  have none: "\<forall>r \<in> set (map Rejected errs). \<not> is_completed r"
    by simp
  have res: "filter is_resolved (map Rejected errs) = []"
    by (induction errs) simp_all
  have bound: "length (filter is_resolved (map Rejected errs)) < MAX_RETRIES"
    by (simp add: res MAX_RETRIES_def)
  note c = session_then_completed [OF none bound is_completed_completed, of i pid es]
  show ?thesis
    by (simp add: c not_armed_empty res MAX_RETRIES_def)
qed

text \<open>
  Claim C1. The specification counts a failed tick against the attempt budget, so that a
  session whose query fails on every tick times out within \<open>MAX_RETRIES\<close> ticks. In the code
  the increment is inside the \<open>try\<close> block after the awaits, and a thrown error skips it:
  after \<open>MAX_RETRIES\<close> failed ticks the timer is still armed, \<open>retryCount\<close> is still \<open>0\<close> and
  no timeout toast was shown.
\<close>

theorem all_failures_never_time_out:
  "armed (poll_session 0 ''p'' (replicate MAX_RETRIES (Rejected ''Failed to fetch'')) init)
   \<and> retryCount (poll_session 0 ''p'' (replicate MAX_RETRIES (Rejected ''Failed to fetch'')) init) 0 = 0
   \<and> count_list (effects (poll_session 0 ''p'' (replicate MAX_RETRIES (Rejected ''Failed to fetch'')) init))
        timeout_toast = 0"
proof -
  let ?rs = "replicate MAX_RETRIES (Rejected ''Failed to fetch'') :: status_data outcome list"
  have none: "\<forall>r \<in> set ?rs. \<not> is_completed r"
    by simp
  have res: "filter is_resolved ?rs = []"
    by simp
  have bound: "length (filter is_resolved ?rs) < MAX_RETRIES"
    unfolding res by (simp add: MAX_RETRIES_def)
  note q = session_quiet [OF none bound, of 0 "''p''" "[]", unfolded res]
  have i: "run [] init = init" "effects init = []"
    by (simp_all add: run_def init_def)
  show ?thesis
    using q armed_single [OF q(1) q(2)] by (simp add: i)
qed

text \<open>
  Claim C2. With \<open>pending\<close> on ticks 1 to 19 and \<open>completed\<close> on tick 20, the code calls
  \<open>handlePaymentSuccess\<close> and then, since nothing returns after it, increments \<open>retryCount\<close>
  to 20 and shows the timeout toast as well.
\<close>

theorem completed_on_last_tick_also_times_out:
  "count_list (effects (poll_session 0 ''p'' (replicate 19 pending @ [completed]) init)) success_toast = 1
   \<and> count_list (effects (poll_session 0 ''p'' (replicate 19 pending @ [completed]) init)) timeout_toast = 1
   \<and> \<not> armed (poll_session 0 ''p'' (replicate 19 pending @ [completed]) init)"
proof -
  have none: "\<forall>r \<in> set (replicate 19 pending). \<not> is_completed r"
    by simp
  have res: "length (filter is_resolved (replicate 19 pending)) = 19"
    by simp
  have bound: "length (filter is_resolved (replicate 19 pending)) < MAX_RETRIES"
    unfolding res by (simp add: MAX_RETRIES_def)
  note c = session_then_completed [OF none bound is_completed_completed, of 0 "''p''" "[]", unfolded res]
  have i: "run [] init = init" "effects init = []"
    by (simp_all add: run_def init_def)
  show ?thesis
    using c not_armed_empty [OF c(1)] by (simp add: i MAX_RETRIES_def)
qed

section \<open>One timer, one handle\<close>

text \<open>
  Claim C3. After every sequence of \<open>startPaymentCheck\<close> calls, timer ticks, query outcomes
  and submits, at most one timer is armed. \<open>startPaymentCheck\<close> clears the timer that
  \<open>paymentCheckInterval\<close> holds and arms a new one, with a handle different from the old one,
  which is then the only armed timer; it resets \<open>retryCount\<close> of its instance to \<open>0\<close>.
\<close>

theorem at_most_one_timer_armed:
  "length (timers (run es init)) \<le> 1
   \<and> timers (startPaymentCheck i pid (run es init)) = [(next_timer (run es init), i, pid)]
   \<and> paymentCheckInterval (startPaymentCheck i pid (run es init)) = Some (next_timer (run es init))
   \<and> paymentCheckInterval (run es init) \<noteq> Some (next_timer (run es init))
   \<and> retryCount (startPaymentCheck i pid (run es init)) i = 0"
  using one_timer_length [OF one_timer_reachable, of es]
    session_start [OF one_timer_reachable, of i pid es]
    fresh_handle_neq [OF fresh_handle_reachable, of es]
  by simp

text \<open>
  Claim C10. \<open>paymentCheckInterval\<close> is one variable of the module, shared by all instances
  (it is a field of the page, not of an instance). So in every reachable page every armed
  timer, of whichever instance, is the one the variable holds; \<open>startPaymentCheck\<close> on
  instance \<open>i\<close> disarms the timer \<open>t\<close> armed by any instance \<open>j\<close>; and on the fresh page,
  where the variable is \<open>undefined\<close>, \<open>clearInterval\<close> changes nothing and the first
  \<open>startPaymentCheck\<close> arms timer \<open>1\<close>.
\<close>

theorem timer_handle_shared_by_instances:
  "one_timer (run es init)
   \<and> ((t, j, q) \<in> set (timers (run es init)) \<longrightarrow>
        t \<notin> fst ` set (timers (startPaymentCheck i pid (run es init))))
   \<and> clearInterval (paymentCheckInterval init) init = init
   \<and> timers (startPaymentCheck i pid init) = [(1, i, pid)]
   \<and> paymentCheckInterval (startPaymentCheck i pid init) = Some 1"
proof -
  have a: "(t, j, q) \<in> set (timers (run es init)) \<longrightarrow>
        t \<notin> fst ` set (timers (startPaymentCheck i pid (run es init)))"
    using armed_timer_is_old [OF one_timer_reachable fresh_handle_reachable, of t j q es]
    by (auto simp: startPaymentCheck_timers [OF one_timer_reachable])
  have b: "clearInterval (paymentCheckInterval init) init = init"
    by (simp add: clearInterval_def init_def)
  have c: "timers (startPaymentCheck i pid init) = [(1, i, pid)]"
    using startPaymentCheck_timers [OF one_timer_init, of i pid] by (simp add: init_def)
  have d: "paymentCheckInterval (startPaymentCheck i pid init) = Some 1"
    by (simp add: init_def)
  show ?thesis
    using one_timer_reachable a b c d by blast
qed

theorem timer_handle_shared_by_instances_witness:
  "one_timer (run [Start 1 ''a''] init)
   \<and> (1, 1, ''a'') \<in> set (timers (run [Start 1 ''a''] init))
   \<and> 1 \<notin> fst ` set (timers (startPaymentCheck 2 ''b'' (run [Start 1 ''a''] init)))
   \<and> clearInterval (paymentCheckInterval init) init = init
   \<and> timers (startPaymentCheck 2 ''b'' init) = [(1, 2, ''b'')]
   \<and> paymentCheckInterval (startPaymentCheck 2 ''b'' init) = Some 1"
proof -
  have h: "(1, 1, ''a'') \<in> set (timers (run [Start 1 ''a''] init))"
    by (simp add: run_def startPaymentCheck_def setInterval_def clearInterval_def init_def)
  show ?thesis
    using h timer_handle_shared_by_instances [of "[Start 1 ''a'']" 1 1 "''a''" 2 "''b''"]
    by blast
qed

section \<open>Responses of a superseded session\<close>

text \<open>
  Claim C6 as stated fails. Session \<open>a\<close> (timer 1) has a query in flight when
  \<open>startPaymentCheck\<close> starts session \<open>b\<close> (timer 2). The callback of the old query checks
  nothing when its response arrives: \<open>completed\<close> shows the success toast and clears
  timer 2, the timer of the new session.
\<close>

theorem stale_response_fires_success_counterexample:
  "paymentCheckInterval (run [Start 0 ''a'', Fire 1, Start 0 ''b''] init) = Some 2
   \<and> inflight (run [Start 0 ''a'', Fire 1, Start 0 ''b''] init) = [(1, 0)]
   \<and> armed (run [Start 0 ''a'', Fire 1, Start 0 ''b''] init)
   \<and> success_toast \<notin> set (effects (run [Start 0 ''a'', Fire 1, Start 0 ''b''] init))
   \<and> success_toast \<in> set (effects (run [Start 0 ''a'', Fire 1, Start 0 ''b'', Resume 0 completed] init))
   \<and> \<not> armed (run [Start 0 ''a'', Fire 1, Start 0 ''b'', Resume 0 completed] init)"
  by (simp add: run_def startPaymentCheck_def setInterval_def clearInterval_def init_def
      timer_fire_def resume_def check_resume_def completed_def handlePaymentSuccess_def
      showToast_def log_def armed_def success_toast_def status_url_def MAX_RETRIES_def Let_def)

text \<open>
  Claim C6, amended. A response to a query that a superseded timer \<open>t0\<close> fired is processed
  like any other, without a check of the session: if it is \<open>completed\<close>, the success toast is
  shown and the timer that \<open>paymentCheckInterval\<close> now holds is cleared; if it is resolved at
  all, \<open>retryCount\<close> of the instance is incremented, and when that reaches \<open>MAX_RETRIES\<close> the
  timeout toast is shown and the current timer is cleared. Only a rejected query changes
  neither the timers nor \<open>retryCount\<close>.
\<close>

theorem stale_response_is_processed:
  assumes "k < length (inflight st)" and "inflight st ! k = (t0, i)"
    and "paymentCheckInterval st \<noteq> Some t0"
  shows "(is_completed (Resolved d) \<longrightarrow>
            count_list (effects (resume k (Resolved d) st)) success_toast
              = Suc (count_list (effects st) success_toast)
          \<and> \<not> armed (resume k (Resolved d) st))
       \<and> retryCount (resume k (Resolved d) st) i = Suc (retryCount st i)
       \<and> (MAX_RETRIES \<le> Suc (retryCount st i) \<longrightarrow>
            count_list (effects (resume k (Resolved d) st)) timeout_toast
              = Suc (count_list (effects st) timeout_toast)
          \<and> \<not> armed (resume k (Resolved d) st))
       \<and> timers (resume k (Rejected err) st) = timers st
       \<and> retryCount (resume k (Rejected err) st) = retryCount st"
proof -
  let ?st = "st\<lparr>inflight := take k (inflight st) @ drop (Suc k) (inflight st)\<rparr>"
  have r: "resume k r st = check_resume i r ?st" for r
    using assms(1,2) by (simp add: resume_def)
  have st: "effects ?st = effects st" "retryCount ?st = retryCount st" "timers ?st = timers st"
    by simp_all
  show ?thesis
    unfolding r
    using check_resume_completed [of d i ?st] check_resume_counts [of i d ?st]
      check_resume_cap [of ?st i d]
    by (simp add: check_resume_Rejected del: is_completed.simps)
qed

theorem stale_response_is_processed_witness:
  "count_list (effects (resume 0 completed (run [Start 0 ''a'', Fire 1, Start 0 ''b''] init))) success_toast
     = Suc (count_list (effects (run [Start 0 ''a'', Fire 1, Start 0 ''b''] init)) success_toast)
   \<and> \<not> armed (resume 0 completed (run [Start 0 ''a'', Fire 1, Start 0 ''b''] init))
   \<and> retryCount (resume 0 completed (run [Start 0 ''a'', Fire 1, Start 0 ''b''] init)) 0
     = Suc (retryCount (run [Start 0 ''a'', Fire 1, Start 0 ''b''] init) 0)
   \<and> count_list (effects (resume 0 pending
          ((run [Start 0 ''a'', Fire 1, Start 0 ''b''] init)\<lparr>retryCount := (\<lambda>_. 19)\<rparr>))) timeout_toast
     = Suc (count_list (effects
          ((run [Start 0 ''a'', Fire 1, Start 0 ''b''] init)\<lparr>retryCount := (\<lambda>_. 19)\<rparr>)) timeout_toast)
   \<and> \<not> armed (resume 0 pending
          ((run [Start 0 ''a'', Fire 1, Start 0 ''b''] init)\<lparr>retryCount := (\<lambda>_. 19)\<rparr>))"
proof -
  let ?st = "run [Start 0 ''a'', Fire 1, Start 0 ''b''] init"
  let ?st' = "?st\<lparr>retryCount := (\<lambda>_. 19)\<rparr>"
  have h: "0 < length (inflight ?st)" "inflight ?st ! 0 = (1, 0)" "paymentCheckInterval ?st \<noteq> Some 1"
    by (simp_all add: run_def startPaymentCheck_def setInterval_def clearInterval_def init_def
        timer_fire_def log_def Let_def)
  have h': "0 < length (inflight ?st')" "inflight ?st' ! 0 = (1, 0)" "paymentCheckInterval ?st' \<noteq> Some 1"
    using h by simp_all
  have cap: "MAX_RETRIES \<le> Suc (retryCount ?st' 0)"
    by (simp add: MAX_RETRIES_def)
  show ?thesis
    using stale_response_is_processed [OF h, of "\<lparr>success = True, status = ''completed''\<rparr>"]
      stale_response_is_processed [OF h', of "\<lparr>success = True, status = ''pending''\<rparr>"] cap
    by (simp add: completed_def pending_def)
qed

section \<open>Queries in flight\<close>

text \<open>
  Claim C8 as stated fails. \<open>setInterval\<close> fires every \<open>POLL_INTERVAL\<close> whether or not the
  previous callback has returned from its await: when timer 1 fires twice before a response
  arrives, two queries of the same session are in flight.
\<close>

theorem overlapping_queries_counterexample:
  "inflight (run [Start 0 ''a'', Fire 1, Fire 1] init) = [(1, 0), (1, 0)]"
  by (simp add: run_def startPaymentCheck_def setInterval_def clearInterval_def init_def
      timer_fire_def log_def Let_def)

text \<open>
  Claim C8, amended. Every firing of an armed timer sends a query, whatever is still in flight.
  Queries of a session do not overlap as long as each outcome is processed before the timer
  fires again: a tick leaves in flight what was in flight before it, so when nothing is in
  flight at the start, nothing is in flight after any number of ticks, and at most one query
  during the next.
\<close>

theorem queries_overlap_unless_answered_before_next_tick:
  "(t \<in> fst ` set (timers st) \<longrightarrow>
      length (inflight (timer_fire t st)) = Suc (length (inflight st)))
   \<and> inflight (poll_tick t r st) = inflight st
   \<and> (inflight st = [] \<longrightarrow>
        inflight (ticks t rs st) = []
      \<and> length (inflight (timer_fire t (ticks t rs st))) \<le> 1)"
proof -
  have "length (inflight (timer_fire t (ticks t rs st))) \<le> 1" if "inflight st = []"
    using timer_fire_inflight_le [of t "ticks t rs st"] that
    by (simp add: inflight_ticks)
  then show ?thesis
    using timer_fire_armed [of t st]
    by (simp add: inflight_poll_tick inflight_ticks)
qed

theorem queries_overlap_unless_answered_before_next_tick_witness:
  "1 \<in> fst ` set (timers (startPaymentCheck 0 ''a'' init))
   \<and> inflight (startPaymentCheck 0 ''a'' init) = []
   \<and> length (inflight (timer_fire 1 (startPaymentCheck 0 ''a'' init))) = Suc 0
   \<and> inflight (ticks 1 [pending, Rejected ''Failed to fetch''] (startPaymentCheck 0 ''a'' init)) = []
   \<and> length (inflight (timer_fire 1 (ticks 1 [pending, Rejected ''Failed to fetch'']
          (startPaymentCheck 0 ''a'' init)))) \<le> 1"
proof -
  have h: "1 \<in> fst ` set (timers (startPaymentCheck 0 ''a'' init))"
    "inflight (startPaymentCheck 0 ''a'' init) = []"
    by (simp_all add: startPaymentCheck_def setInterval_def clearInterval_def init_def)
  show ?thesis
    using h queries_overlap_unless_answered_before_next_tick
      [of 1 "startPaymentCheck 0 ''a'' init" pending "[pending, Rejected ''Failed to fetch'']"]
    by simp
qed

section \<open>\<open>createDeposit\<close>\<close>

text \<open>
  Claim C7 as stated fails. The failure path of \<open>createDeposit\<close> does not touch the timer.
  Two submits are made while the form is enabled and no session is active, the second before
  the first is answered. The first creation succeeds and starts a session; the second fails,
  its error toast is shown, and the session of the first is active afterwards.
\<close>

theorem overlapping_submits_counterexample:
  "\<not> form_disabled init \<and> \<not> armed init
   \<and> \<not> form_disabled (run [Submit 0] init) \<and> \<not> armed (run [Submit 0] init)
   \<and> \<not> armed (run [Submit 0, Submit 0] init)
   \<and> ShowToast ''Failed to fetch'' ''error''
       \<in> set (effects (run [Submit 0, Submit 0, SubmitResume 0 (Resolved ok_deposit),
                              SubmitResume 0 (Rejected ''Failed to fetch'')] init))
   \<and> armed (run [Submit 0, Submit 0, SubmitResume 0 (Resolved ok_deposit),
                 SubmitResume 0 (Rejected ''Failed to fetch'')] init)"
  by (simp add: run_def createDeposit_begin_def submit_resume_def createDeposit_resume_def
      createDeposit_catch_def handleSuccessfulDeposit_def ok_deposit_def or_default_def
      startPaymentCheck_def setInterval_def clearInterval_def init_def
      showToast_def log_def armed_def Let_def)

text \<open>
  Claim C7, amended. When a suspended \<open>createDeposit\<close> of instance \<open>i\<close> is answered in any
  page: on success (\<open>data.success\<close>) the address and the QR code are stored in the page, the
  toast is shown and a session for \<open>payment_id\<close> is started, its timer armed and
  \<open>retryCount\<close> set to \<open>0\<close>; on failure, a rejected request or a payload without
  \<open>success\<close>, only the error toast and its log are added and the timers are left as they
  were when the answer arrived, so a session is active afterwards exactly if one was active
  then. Sending the request changes no timer either: a session is started only by a creation
  that succeeded.
\<close>

theorem failed_creation_leaves_timers:
  assumes "k < length (creating st)" and "creating st ! k = i"
  shows "(dsuccess d \<longrightarrow>
            addressDisplay (submit_resume k (Resolved d) st) = payment_address d
          \<and> qrCodeDisplay (submit_resume k (Resolved d) st) = qr_code_url d
          \<and> ShowToast ''Deposit created successfully'' ''success''
               \<in> set (effects (submit_resume k (Resolved d) st))
          \<and> (next_timer st, i, payment_id d) \<in> set (timers (submit_resume k (Resolved d) st))
          \<and> paymentCheckInterval (submit_resume k (Resolved d) st) = Some (next_timer st)
          \<and> armed (submit_resume k (Resolved d) st)
          \<and> retryCount (submit_resume k (Resolved d) st) i = 0)
       \<and> submit_resume k (Rejected msg) st
           = st\<lparr>creating := take k (creating st) @ drop (Suc k) (creating st),
                 effects := effects st @ create_failed_log msg\<rparr>
       \<and> timers (submit_resume k (Rejected msg) st) = timers st
       \<and> armed (submit_resume k (Rejected msg) st) = armed st
       \<and> (\<not> dsuccess d' \<longrightarrow>
            submit_resume k (Resolved d') st
              = st\<lparr>creating := take k (creating st) @ drop (Suc k) (creating st),
                    effects := effects st @ create_failed_log (message d')\<rparr>
          \<and> timers (submit_resume k (Resolved d') st) = timers st
          \<and> armed (submit_resume k (Resolved d') st) = armed st)
       \<and> timers (createDeposit_begin j st) = timers st
       \<and> armed (createDeposit_begin j st) = armed st"
proof -
  let ?st = "st\<lparr>creating := take k (creating st) @ drop (Suc k) (creating st)\<rparr>"
  note p = submit_resume_pick [OF assms]
  have st: "next_timer ?st = next_timer st" "effects ?st = effects st" "timers ?st = timers st"
    by simp_all
  have ok: "armed (createDeposit_resume i (Resolved d) ?st)" if "dsuccess d"
    using createDeposit_success(4,5) [OF that, where i = i and st = ?st]
    by (force simp: armed_def)
  have rej: "createDeposit_resume i (Rejected msg) ?st
               = st\<lparr>creating := take k (creating st) @ drop (Suc k) (creating st),
                     effects := effects st @ create_failed_log msg\<rparr>"
    by (simp add: createDeposit_Rejected)
  have bad: "createDeposit_resume i (Resolved d') ?st
               = st\<lparr>creating := take k (creating st) @ drop (Suc k) (creating st),
                     effects := effects st @ create_failed_log (message d')\<rparr>"
    if "\<not> dsuccess d'"
    by (simp add: createDeposit_unsuccessful [OF that])
  have arm: "armed (st\<lparr>creating := c, effects := e\<rparr>) = armed st" for c e
    by (simp add: armed_def split: option.splits)
  show ?thesis
    unfolding p
    using createDeposit_success [where d = d and i = i and st = ?st] ok bad
    by (simp add: rej arm createDeposit_begin_timers del: One_nat_def)
qed

theorem failed_creation_leaves_timers_witness:
  "0 < length (creating (run [Submit 0, Submit 0, SubmitResume 0 (Resolved ok_deposit)] init))
   \<and> creating (run [Submit 0, Submit 0, SubmitResume 0 (Resolved ok_deposit)] init) ! 0 = 0
   \<and> armed (run [Submit 0, Submit 0, SubmitResume 0 (Resolved ok_deposit)] init)
   \<and> armed (submit_resume 0 (Rejected ''Failed to fetch'')
        (run [Submit 0, Submit 0, SubmitResume 0 (Resolved ok_deposit)] init))
   \<and> armed (submit_resume 0 (Resolved bad_deposit)
        (run [Submit 0, Submit 0, SubmitResume 0 (Resolved ok_deposit)] init))
   \<and> (2, 0, ''p'') \<in> set (timers (submit_resume 0 (Resolved ok_deposit)
        (run [Submit 0, Submit 0, SubmitResume 0 (Resolved ok_deposit)] init)))
   \<and> addressDisplay (submit_resume 0 (Resolved ok_deposit)
        (run [Submit 0, Submit 0, SubmitResume 0 (Resolved ok_deposit)] init)) = ''addr''"
proof -
  let ?st = "run [Submit 0, Submit 0, SubmitResume 0 (Resolved ok_deposit)] init"
  have h: "0 < length (creating ?st)" "creating ?st ! 0 = 0"
    by (simp_all add: run_def createDeposit_begin_def submit_resume_def createDeposit_resume_def
        handleSuccessfulDeposit_def ok_deposit_def startPaymentCheck_def setInterval_def
        clearInterval_def init_def showToast_def log_def Let_def)
  have a: "armed ?st" "next_timer ?st = 2"
    by (simp_all add: run_def createDeposit_begin_def submit_resume_def createDeposit_resume_def
        handleSuccessfulDeposit_def ok_deposit_def startPaymentCheck_def setInterval_def
        clearInterval_def init_def showToast_def log_def armed_def Let_def)
  have v: "dsuccess ok_deposit" "\<not> dsuccess bad_deposit" "payment_id ok_deposit = ''p''"
    "payment_address ok_deposit = ''addr''"
    by (simp_all add: ok_deposit_def bad_deposit_def)
  note t = failed_creation_leaves_timers [OF h, of ok_deposit "''Failed to fetch''" bad_deposit 0]
  note ok = t [THEN conjunct1, rule_format, OF v(1), unfolded a(2) v(3,4)]
  note rest = t [THEN conjunct2, THEN conjunct2, THEN conjunct2]
  have rej: "armed (submit_resume 0 (Rejected ''Failed to fetch'') ?st)"
    unfolding rest [THEN conjunct1] by (rule a(1))
  have bad: "armed (submit_resume 0 (Resolved bad_deposit) ?st)"
    unfolding rest [THEN conjunct2, THEN conjunct1, rule_format, OF v(2), THEN conjunct2, THEN conjunct2]
    by (rule a(1))
  from h a(1) rej bad ok show ?thesis
    by blast
qed

end
